theory Spec2Isabelle
  imports Main "HOL-Library.Word"
begin

unbundle bit_operations_syntax

section \<open>Bytes, streams and Python exceptions\<close>

text \<open>
  A Python \<open>bytes\<close> value is a list of 8-bit words; a Python \<open>int\<close> that cannot be
  negative is a \<open>nat\<close>, one that can is an \<open>int\<close>. A \<open>BytesIO\<close> that is only read
  forwards is the list of the bytes not yet read: \<open>stream.read(n)\<close> returns
  \<open>take n\<close> of it and leaves \<open>drop n\<close>.
\<close>

type_synonym byte = "8 word"
type_synonym bytes = "byte list"

text \<open>
  The exceptions \<open>leveldb.py\<close> can raise. The four \<open>ValueError\<close>s it raises itself are
  kept apart by their message; the others are raised by the Python runtime:
  \<open>IndexError\<close> by \<open>b""[0]\<close>, \<open>StructError\<close> by \<open>struct.unpack\<close> on a buffer of the
  wrong size, \<open>TypeError\<close> by \<open>seek(None)\<close>, \<open>OSError\<close> by a seek before the start of
  a file, \<open>NegativeSeek\<close> (a \<open>ValueError\<close>) by \<open>BytesIO.seek\<close> of a negative
  position, \<open>InvalidLiteral\<close> (a \<open>ValueError\<close>) by \<open>int(s, 16)\<close>.
\<close>

datatype error =
    TruncatedLiteral     \<comment> \<open>\<open>ValueError("Truncated snappy literal")\<close>\<close>
  | ZeroOffset           \<comment> \<open>\<open>ValueError("Snappy backreference offset cannot be 0")\<close>\<close>
  | LengthMismatch       \<comment> \<open>\<open>ValueError("Snappy decompression length mismatch")\<close>\<close>
  | InvalidMagic         \<comment> \<open>\<open>ValueError("Invalid magic in ...")\<close>\<close>
  | NotADirectory        \<comment> \<open>\<open>ValueError("Not a directory: ...")\<close>\<close>
  | InvalidLiteral
  | NegativeSeek
  | IndexError
  | StructError
  | TypeError
  | OSError

text \<open>\<open>stream.read(n)\<close>: the bytes read and the stream after them.\<close>

definition read :: "nat \<Rightarrow> bytes \<Rightarrow> bytes \<times> bytes" where
  "read n stream = (take n stream, drop n stream)"

text \<open>The unsigned little-endian value of a byte string.\<close>

fun uint_le :: "bytes \<Rightarrow> nat" where
  "uint_le [] = 0"
| "uint_le (b # bs) = unat b + 256 * uint_le bs"

text \<open>
  \<open>struct.unpack("<H" | "<I" | "<Q", buf)[0]\<close>: the buffer must have exactly the
  size of the format (2, 4 or 8 bytes), or \<open>struct.error\<close> is raised.
\<close>

definition unpack_le :: "nat \<Rightarrow> bytes \<Rightarrow> error + nat" where
  "unpack_le n buf = (if length buf = n then Inr (uint_le buf) else Inl StructError)"

section \<open>Varint codec\<close>

text \<open>
  \<open>_read_le_varint\<close>, lines 30 to 42. The loop \<open>for i in range(limit)\<close> is the
  recursion on \<open>i\<close>; the result is \<open>None\<close> as soon as a read returns no byte.
\<close>

function varint_loop :: "nat \<Rightarrow> nat \<Rightarrow> nat \<Rightarrow> bytes \<Rightarrow> nat option \<times> bytes" where
  "varint_loop limit i result stream =
     (if i < limit then
        (case stream of
           [] \<Rightarrow> (None, [])
         | byte # stream' \<Rightarrow>
             (let result' = result OR push_bit (i * 7) (unat byte AND 0x7F)
              in if byte AND 0x80 = 0 then (Some result', stream')
                 else varint_loop limit (i + 1) result' stream'))
      else (Some result, stream))"
  by pat_completeness auto
termination
  by (relation "measure (\<lambda>(limit, i, result, stream). limit - i)") auto

definition read_le_varint :: "bool \<Rightarrow> bytes \<Rightarrow> nat option \<times> bytes" where
  "read_le_varint is_google_32bit stream =
     varint_loop (if is_google_32bit then 5 else 10) 0 0 stream"

section \<open>Snappy decompression\<close>

text \<open>
  Python slicing \<open>xs[start:stop]\<close>: a negative index counts from the end, and both
  indices are clamped to \<open>0 .. len(xs)\<close>; nothing is raised.
\<close>

definition py_index :: "nat \<Rightarrow> int \<Rightarrow> nat" where
  "py_index n i =
     (if i < 0 then (if i + int n < 0 then 0 else nat (i + int n))
      else if int n < i then n else nat i)"

definition py_slice :: "'a list \<Rightarrow> int \<Rightarrow> int \<Rightarrow> 'a list" where
  "py_slice xs start stop =
     (let lo = py_index (length xs) start; hi = py_index (length xs) stop
      in take (hi - lo) (drop lo xs))"

text \<open>
  The length of a literal, lines 58 to 68: the size marker, then 0 to 4 length bytes.
  \<open>data.read(1)[0]\<close> raises \<open>IndexError\<close> at the end of the input, and
  \<open>struct.unpack\<close> raises \<open>struct.error\<close> on a short read.
\<close>

definition literal_length :: "nat \<Rightarrow> bytes \<Rightarrow> error + (nat \<times> bytes)" where
  "literal_length size_marker data =
     (if size_marker < 60 then Inr (1 + size_marker, data)
      else if size_marker = 60 then
        (case fst (read 1 data) of
           [] \<Rightarrow> Inl IndexError
         | b # _ \<Rightarrow> Inr (1 + unat b, snd (read 1 data)))
      else if size_marker = 61 then
        (case unpack_le 2 (fst (read 2 data)) of
           Inl e \<Rightarrow> Inl e
         | Inr v \<Rightarrow> Inr (1 + v, snd (read 2 data)))
      else if size_marker = 62 then
        (case unpack_le 4 (fst (read 3 data) @ [0]) of
           Inl e \<Rightarrow> Inl e
         | Inr v \<Rightarrow> Inr (1 + v, snd (read 3 data)))
      else
        (case unpack_le 4 (fst (read 4 data)) of
           Inl e \<Rightarrow> Inl e
         | Inr v \<Rightarrow> Inr (1 + v, snd (read 4 data))))"

text \<open>The length and offset of a copy element, lines 76 to 84.\<close>

definition copy_header :: "byte \<Rightarrow> bytes \<Rightarrow> error + (nat \<times> nat \<times> bytes)" where
  "copy_header tag_byte data =
     (let tag = unat tag_byte AND 0x03 in
      if tag = 1 then
        (case fst (read 1 data) of
           [] \<Rightarrow> Inl IndexError
         | b # _ \<Rightarrow>
             Inr (drop_bit 2 (unat tag_byte AND 0x1C) + 4,
                  push_bit 3 (unat tag_byte AND 0xE0) OR unat b,
                  snd (read 1 data)))
      else if tag = 2 then
        (case unpack_le 2 (fst (read 2 data)) of
           Inl e \<Rightarrow> Inl e
         | Inr offset \<Rightarrow> Inr (1 + drop_bit 2 (unat tag_byte AND 0xFC), offset, snd (read 2 data)))
      else
        (case unpack_le 4 (fst (read 4 data)) of
           Inl e \<Rightarrow> Inl e
         | Inr offset \<Rightarrow> Inr (1 + drop_bit 2 (unat tag_byte AND 0xFC), offset, snd (read 4 data))))"

text \<open>
  The bytes a copy appends, lines 89 to 92. \<open>out.tell()\<close> is the length of the output
  (it is only ever appended to); \<open>src_pos\<close> is negative when the offset is larger.
\<close>

definition copy_bytes :: "bytes \<Rightarrow> nat \<Rightarrow> nat \<Rightarrow> bytes" where
  "copy_bytes out offset len =
     (let src_pos = int (length out) - int offset;
          buf = py_slice out src_pos (src_pos + int len)
      in if offset \<le> len then take len (concat (replicate len buf)) else buf)"

lemma literal_length_shorter:
  "literal_length m data = Inr (len, data') \<Longrightarrow> length data' \<le> length data"
  by (auto simp: literal_length_def read_def split: if_splits list.splits sum.splits)

lemma copy_header_shorter:
  "copy_header t data = Inr (len, off, data') \<Longrightarrow> length data' \<le> length data"
  by (auto simp: copy_header_def read_def Let_def split: if_splits list.splits sum.splits)

text \<open>
  The \<open>while True\<close> loop of \<open>_snappy_decompress\<close>, lines 50 to 93: \<open>out\<close> is the
  output so far, the second argument the input not yet read.
\<close>

function snappy_loop :: "bytes \<Rightarrow> bytes \<Rightarrow> error + bytes" where
  "snappy_loop out [] = Inr out"
| "snappy_loop out (tag_byte # data) =
     (if unat tag_byte AND 0x03 = 0 then
        (case literal_length (drop_bit 2 (unat tag_byte AND 0xFC)) data of
           Inl e \<Rightarrow> Inl e
         | Inr (len, data') \<Rightarrow>
             (let chunk = fst (read len data') in
              if length chunk < len then Inl TruncatedLiteral
              else snappy_loop (out @ chunk) (snd (read len data'))))
      else
        (case copy_header tag_byte data of
           Inl e \<Rightarrow> Inl e
         | Inr (len, offset, data') \<Rightarrow>
             if offset = 0 then Inl ZeroOffset
             else snappy_loop (out @ copy_bytes out offset len) data'))"
  by pat_completeness auto
termination
  by (relation "measure (\<lambda>(out, data). length data)")
     (auto simp: read_def dest!: literal_length_shorter copy_header_shorter)

text \<open>
  \<open>_snappy_decompress\<close>, lines 45 to 98. \<open>uncompressed_length\<close> is \<open>None\<close> when the
  length prefix is cut off, and \<open>None != len(result)\<close> is true.
\<close>

definition snappy_decompress :: "bytes \<Rightarrow> error + bytes" where
  "snappy_decompress data =
     (let (uncompressed_length, data') = read_le_varint False data in
      case snappy_loop [] data' of
        Inl e \<Rightarrow> Inl e
      | Inr result \<Rightarrow>
          if uncompressed_length \<noteq> Some (length result) then Inl LengthMismatch
          else Inr result)"

section \<open>Records\<close>

text \<open>
  \<open>KeyState\<close> and \<open>Record\<close>, lines 105 to 127. The field \<open>value\<close> is \<open>val\<close> here.
\<close>

datatype KeyState = Deleted | Live | Unknown

record Record =
  key :: bytes
  val :: bytes
  seq :: nat
  state :: KeyState
  from_ldb :: bool

definition user_key :: "Record \<Rightarrow> bytes" where
  "user_key r =
     (if from_ldb r \<and> 8 \<le> length (key r) then take (length (key r) - 8) (key r)
      else key r)"

section \<open>Table files\<close>

text \<open>
  \<open>stream.read(n)\<close> where \<open>n\<close> may be \<open>None\<close>: then everything up to the end is read.
\<close>

definition read_opt :: "nat option \<Rightarrow> bytes \<Rightarrow> bytes \<times> bytes" where
  "read_opt n stream = (case n of None \<Rightarrow> (stream, []) | Some k \<Rightarrow> read k stream)"

text \<open>
  \<open>_read_block_handle\<close>, lines 139 to 143.
\<close>

definition read_block_handle :: "bytes \<Rightarrow> (nat option \<times> nat option) \<times> bytes" where
  "read_block_handle stream =
     (let (offset, stream1) = read_le_varint False stream;
          (len, stream2) = read_le_varint False stream1
      in ((offset, len), stream2))"

text \<open>
  \<open>struct.unpack("<i", ...)\<close> reads its four bytes as a signed integer.
\<close>

definition signed32 :: "nat \<Rightarrow> int" where
  "signed32 u = (if u < 2 ^ 31 then int u else int u - 2 ^ 32)"

text \<open>
  A varint read never lengthens the stream, and consumes a byte of a stream that has one:
  the loop of \<open>_iter_block_entries\<close> terminates by it.
\<close>

lemma varint_loop_shorter: "length (snd (varint_loop limit i r s)) \<le> length s"
proof (induction limit i r s rule: varint_loop.induct)
  case (1 limit i result stream)
  show ?case
  proof (cases "i < limit")
    case False
    then show ?thesis by simp
  next
    case True
    show ?thesis
    proof (cases stream)
      case Nil
      with True show ?thesis by simp
    next
      case (Cons b s')
      show ?thesis
      proof (cases "b AND 0x80 = 0")
        case z: True
        with True Cons show ?thesis by (simp add: Let_def)
      next
        case nz: False
        have "snd (varint_loop limit i result stream) =
              snd (varint_loop limit (i + 1) (result OR push_bit (i * 7) (unat b AND 0x7F)) s')"
          using True Cons nz by (simp add: Let_def)
        moreover have "length (snd (varint_loop limit (i + 1)
              (result OR push_bit (i * 7) (unat b AND 0x7F)) s')) \<le> length s'"
          using "1.IH"[OF True Cons refl nz] .
        ultimately show ?thesis using Cons by simp
      qed
    qed
  qed
qed

lemma varint_loop_consumes:
  assumes "i < limit" and "s \<noteq> []"
  shows "length (snd (varint_loop limit i r s)) < length s"
proof -
  obtain b s' where s: "s = b # s'" using assms(2) by (cases s) auto
  show ?thesis
  proof (cases "b AND 0x80 = 0")
    case True
    then show ?thesis using assms(1) s by (simp add: Let_def)
  next
    case False
    have "snd (varint_loop limit i r s) =
          snd (varint_loop limit (i + 1) (r OR push_bit (i * 7) (unat b AND 0x7F)) s')"
      using assms(1) s False by (simp add: Let_def)
    then show ?thesis
      using varint_loop_shorter [of limit "i + 1" "r OR push_bit (i * 7) (unat b AND 0x7F)" s'] s
      by simp
  qed
qed

lemma read_le_varint_shorter: "length (snd (read_le_varint g s)) \<le> length s"
  unfolding read_le_varint_def by (rule varint_loop_shorter)

lemma read_le_varint_consumes:
  "s \<noteq> [] \<Longrightarrow> length (snd (read_le_varint g s)) < length s"
  unfolding read_le_varint_def by (rule varint_loop_consumes) simp_all

lemma read_opt_shorter: "length (snd (read_opt n s)) \<le> length s"
  by (simp add: read_opt_def read_def split: option.splits)

text \<open>
  One entry of a block, lines 162 to 167: three varints, the key (the first
  \<open>shared_len\<close> bytes of the previous key, then the bytes read) and the value.
  \<open>key[:None]\<close> is the whole key.
\<close>

definition block_entry :: "bytes \<Rightarrow> bytes \<Rightarrow> (bytes \<times> bytes) \<times> bytes" where
  "block_entry prev_key buf =
     (let (shared_len, buf1) = read_le_varint True buf;
          (non_shared_len, buf2) = read_le_varint True buf1;
          (value_len, buf3) = read_le_varint True buf2;
          (non_shared, buf4) = read_opt non_shared_len buf3;
          key = (case shared_len of None \<Rightarrow> prev_key | Some n \<Rightarrow> take n prev_key)
                  @ non_shared;
          (value, buf5) = read_opt value_len buf4
      in ((key, value), buf5))"

lemma block_entry_consumes:
  assumes "buf \<noteq> []"
  shows "length (snd (block_entry prev_key buf)) < length buf"
proof -
  let ?r1 = "read_le_varint True buf"
  let ?r2 = "read_le_varint True (snd ?r1)"
  let ?r3 = "read_le_varint True (snd ?r2)"
  let ?r4 = "read_opt (fst ?r2) (snd ?r3)"
  let ?r5 = "read_opt (fst ?r3) (snd ?r4)"
  have "snd (block_entry prev_key buf) = snd ?r5"
    by (simp add: block_entry_def split_beta Let_def)
  moreover have "length (snd ?r1) < length buf"
    using assms by (rule read_le_varint_consumes)
  moreover have "length (snd ?r2) \<le> length (snd ?r1)" by (rule read_le_varint_shorter)
  moreover have "length (snd ?r3) \<le> length (snd ?r2)" by (rule read_le_varint_shorter)
  moreover have "length (snd ?r4) \<le> length (snd ?r3)" by (rule read_opt_shorter)
  moreover have "length (snd ?r5) \<le> length (snd ?r4)" by (rule read_opt_shorter)
  ultimately show ?thesis by simp
qed

text \<open>
  The \<open>while buf.tell() < restart_array_offset\<close> loop, lines 161 to 168: \<open>pos\<close> is
  \<open>buf.tell()\<close>. The restart array lies inside \<open>raw\<close>, so a position before it has
  bytes left to read.
\<close>

function entries_loop :: "bytes \<Rightarrow> nat \<Rightarrow> bytes \<Rightarrow> nat \<Rightarrow> (bytes \<times> bytes) list" where
  "entries_loop raw restart_count prev_key pos =
     (let restart_array_offset = int (length raw) - (int restart_count + 1) * 4 in
      if int pos < restart_array_offset then
        (let (entry, buf) = block_entry prev_key (drop pos raw)
         in entry # entries_loop raw restart_count (fst entry) (length raw - length buf))
      else [])"
  by pat_completeness auto
termination
proof (relation "measure (\<lambda>(raw, restart_count, prev_key, pos). length raw - pos)", goal_cases)
  case 1
  show ?case by simp
next
  case prems: (2 raw restart_count prev_key pos rao x entry buf)
  have pos: "pos < length raw" using prems(1,2) by simp
  then have "drop pos raw \<noteq> []" by simp
  then have "length (snd (block_entry prev_key (drop pos raw))) < length (drop pos raw)"
    by (rule block_entry_consumes)
  moreover have "snd (block_entry prev_key (drop pos raw)) = buf"
    using prems(3,4) by (metis snd_conv)
  ultimately show ?case using pos by simp
qed

declare entries_loop.simps [simp del]

text \<open>
  \<open>_iter_block_entries\<close>, lines 146 to 168. The two \<open>struct.unpack\<close> calls raise
  \<open>struct.error\<close> unless their slices have four bytes, and \<open>buf.seek\<close> raises
  \<open>ValueError\<close> on a negative position; all three happen before the first entry.
\<close>

definition iter_block_entries :: "bytes \<Rightarrow> error + (bytes \<times> bytes) list" where
  "iter_block_entries raw =
     (case unpack_le 4 (py_slice raw (- 4) (int (length raw))) of
        Inl e \<Rightarrow> Inl e
      | Inr restart_count \<Rightarrow>
          (let restart_array_offset = int (length raw) - (int restart_count + 1) * 4 in
           case unpack_le 4 (py_slice raw restart_array_offset (restart_array_offset + 4)) of
             Inl e \<Rightarrow> Inl e
           | Inr u \<Rightarrow>
               (let first_entry_offset = signed32 u in
                if first_entry_offset < 0 then Inl NegativeSeek
                else Inr (entries_loop raw restart_count [] (nat first_entry_offset)))))"

text \<open>
  The record of one entry, lines 205 to 209. \<open>key[-8:]\<close> is the whole key when the key
  has fewer than 8 bytes, and \<open>struct.unpack("<Q", ...)\<close> then raises \<open>struct.error\<close>.
\<close>

definition table_record :: "bytes \<Rightarrow> bytes \<Rightarrow> error + Record" where
  "table_record k v =
     (case unpack_le 8 (py_slice k (- 8) (int (length k))) of
        Inl e \<Rightarrow> Inl e
      | Inr q \<Rightarrow>
          (let sq = drop_bit 8 q;
               st = (if 8 < length k \<and> k ! (length k - 8) = 0 then Deleted else Live);
               st = (if length k \<le> 8 then Unknown else st)
           in Inr \<lparr>key = k, val = v, seq = sq, state = st, from_ldb = True\<rparr>))"

text \<open>
  The \<open>for key, value in ...\<close> loop of lines 204 to 209. A generator that raises has
  already yielded the records before: the result is the records emitted and the
  exception, if any.
\<close>

fun table_records :: "(bytes \<times> bytes) list \<Rightarrow> Record list \<times> error option" where
  "table_records [] = ([], None)"
| "table_records ((k, v) # entries) =
     (case table_record k v of
        Inl e \<Rightarrow> ([], Some e)
      | Inr r \<Rightarrow> (let (rs, err) = table_records entries in (r # rs, err)))"

text \<open>
  \<open>read_block\<close>, lines 184 to 191, on the bytes \<open>f\<close> of the file. \<open>f.seek(None)\<close>
  raises \<open>TypeError\<close>, \<open>trailer[0]\<close> raises \<open>IndexError\<close> when the file ends before
  the trailer. Offsets and lengths beyond what the platform's file interface accepts
  are not modelled.
\<close>

definition read_block :: "bytes \<Rightarrow> nat option \<Rightarrow> nat option \<Rightarrow> error + (bytes \<times> bool)" where
  "read_block f offset len =
     (case offset of
        None \<Rightarrow> Inl TypeError
      | Some off \<Rightarrow>
          (let (block_data, f1) = read_opt len (drop off f);
               (trailer, f2) = read 5 f1
           in case trailer of
                [] \<Rightarrow> Inl IndexError
              | t # _ \<Rightarrow>
                  (let is_compressed = (t \<noteq> 0) in
                   if is_compressed then
                     (case snappy_decompress block_data of
                        Inl e \<Rightarrow> Inl e
                      | Inr block_data' \<Rightarrow> Inr (block_data', is_compressed))
                   else Inr (block_data, is_compressed))))"

text \<open>
  The loop over the index entries, lines 198 to 209.
\<close>

fun table_blocks :: "bytes \<Rightarrow> (bytes \<times> bytes) list \<Rightarrow> Record list \<times> error option" where
  "table_blocks f [] = ([], None)"
| "table_blocks f ((index_key, handle_bytes) # index_entries) =
     (let ((offset, len), hstream) = read_block_handle handle_bytes in
      case read_block f offset len of
        Inl e \<Rightarrow> ([], Some e)
      | Inr (block_data, was_compressed) \<Rightarrow>
          (case iter_block_entries block_data of
             Inl e \<Rightarrow> ([], Some e)
           | Inr entries \<Rightarrow>
               (case table_records entries of
                  (rs, Some e) \<Rightarrow> (rs, Some e)
                | (rs, None) \<Rightarrow>
                    (let (rs', err) = table_blocks f index_entries in (rs @ rs', err)))))"

text \<open>
  \<open>_iter_table_file\<close>, lines 171 to 209. \<open>f.seek(-48, os.SEEK_END)\<close> raises
  \<open>OSError\<close> on a file of fewer than 48 bytes.
\<close>

definition iter_table_file :: "bytes \<Rightarrow> Record list \<times> error option" where
  "iter_table_file f =
     (if length f < 48 then ([], Some OSError)
      else
        (let (meta_handle, f1) = read_block_handle (drop (length f - 48) f);
             (index_handle, f2) = read_block_handle f1
         in case unpack_le 8 (fst (read 8 (drop (length f - 8) f))) of
              Inl e \<Rightarrow> ([], Some e)
            | Inr magic \<Rightarrow>
                if magic \<noteq> 0xDB4775248B80FB57 then ([], Some InvalidMagic)
                else
                  (case read_block f (fst index_handle) (snd index_handle) of
                     Inl e \<Rightarrow> ([], Some e)
                   | Inr (index_data, c) \<Rightarrow>
                       (case iter_block_entries index_data of
                          Inl e \<Rightarrow> ([], Some e)
                        | Inr index_entries \<Rightarrow> table_blocks f index_entries))))"

section \<open>Log files\<close>

text \<open>
  What one fragment does, lines 238 to 257: the batches it yields, and the new
  \<open>in_record\<close> and \<open>block\<close>. \<open>payload\<close> is what \<open>buf.read(length)\<close> returned.
\<close>

definition log_fragment :: "bool \<Rightarrow> bytes \<Rightarrow> nat \<Rightarrow> bytes \<Rightarrow> bytes list \<times> bool \<times> bytes" where
  "log_fragment in_record block block_type payload =
     (if block_type = 1 then ([payload], False, block)
      else if block_type = 2 then ([], True, payload)
      else if block_type = 3 then
        (if in_record then ([], in_record, block @ payload) else ([], in_record, block))
      else if block_type = 4 then
        (if in_record then ([block @ payload], False, block @ payload)
         else ([], in_record, block))
      else ([], in_record, block))"

text \<open>
  The loop over the fragments of one physical block, lines 232 to 257: \<open>pos\<close> is
  \<open>buf.tell()\<close>, and the header is \<open>struct.unpack("<IHB", header)\<close>. The result is
  the batches yielded and the state left for the next block.
\<close>

function log_chunk_loop :: "bool \<Rightarrow> bytes \<Rightarrow> bytes \<Rightarrow> nat \<Rightarrow> bytes list \<times> bool \<times> bytes" where
  "log_chunk_loop in_record block chunk pos =
     (if pos < 32768 - 6 then
        (let header = take 7 (drop pos chunk) in
         if length header < 7 then ([], in_record, block)
         else
           (let len = uint_le (take 2 (drop 4 header));
                block_type = unat (header ! 6);
                payload = take len (drop (pos + 7) chunk);
                step = log_fragment in_record block block_type payload;
                rest = log_chunk_loop (fst (snd step)) (snd (snd step)) chunk
                         (pos + 7 + length payload)
            in (fst step @ fst rest, snd rest)))
      else ([], in_record, block))"
  by pat_completeness auto
termination
  by (relation "measure (\<lambda>(in_record, block, chunk, pos). 32768 - 6 - pos)") auto

declare log_chunk_loop.simps [simp del]

text \<open>
  The loop over the physical blocks, line 230, and \<open>_iter_log_batches\<close>.
\<close>

function log_file_loop :: "bool \<Rightarrow> bytes \<Rightarrow> bytes \<Rightarrow> bytes list" where
  "log_file_loop in_record block f =
     (let chunk = take 32768 f in
      if chunk = [] then []
      else
        (let step = log_chunk_loop in_record block chunk 0
         in fst step @ log_file_loop (fst (snd step)) (snd (snd step)) (drop 32768 f)))"
  by pat_completeness auto
termination
  by (relation "measure (\<lambda>(in_record, block, f). length f)") auto

declare log_file_loop.simps [simp del]

definition iter_log_batches :: "bytes \<Rightarrow> bytes list" where
  "iter_log_batches f = log_file_loop False [] f"

text \<open>
  The body of the loop over the records of a batch, lines 270 to 286: the state, key
  and value of the record and the buffer after it, or \<open>None\<close> where the code breaks
  out of the loop.
\<close>

definition log_record :: "bytes \<Rightarrow> ((KeyState \<times> bytes \<times> bytes) \<times> bytes) option" where
  "log_record buf =
     (case fst (read 1 buf) of
        [] \<Rightarrow> None
      | raw_state # _ \<Rightarrow>
          (let st = (if unat raw_state \<le> 1
                     then (if unat raw_state = 0 then Deleted else Live) else Unknown);
               (key_len, buf1) = read_le_varint True (snd (read 1 buf))
           in case key_len of
                None \<Rightarrow> None
              | Some key_len \<Rightarrow>
                  (let (k, buf2) = read key_len buf1 in
                   if st \<noteq> Deleted then
                     (let (val_len, buf3) = read_le_varint True buf2 in
                      case val_len of
                        None \<Rightarrow> None
                      | Some val_len \<Rightarrow>
                          (let (v, buf4) = read val_len buf3 in Some ((st, k, v), buf4)))
                   else Some ((st, k, []), buf2))))"

text \<open>
  \<open>for i in range(count)\<close>, lines 269 to 288.
\<close>

function log_records :: "nat \<Rightarrow> nat \<Rightarrow> nat \<Rightarrow> bytes \<Rightarrow> Record list" where
  "log_records sq count i buf =
     (if i < count then
        (case log_record buf of
           None \<Rightarrow> []
         | Some ((st, k, v), buf') \<Rightarrow>
             \<lparr>key = k, val = v, seq = sq + i, state = st, from_ldb = False\<rparr>
               # log_records sq count (i + 1) buf')
      else [])"
  by pat_completeness auto
termination
  by (relation "measure (\<lambda>(sq, count, i, buf). count - i)") auto

declare log_records.simps [simp del]

text \<open>
  One batch, lines 263 to 288, and \<open>_iter_log_file\<close>. Nothing here can raise.
\<close>

definition log_batch_records :: "bytes \<Rightarrow> Record list" where
  "log_batch_records batch =
     (let (header, buf) = read 12 batch in
      if length header < 12 then []
      else log_records (uint_le (take 8 header)) (uint_le (drop 8 header)) 0 buf)"

definition iter_log_file :: "bytes \<Rightarrow> Record list" where
  "iter_log_file f = concat (map log_batch_records (iter_log_batches f))"

section \<open>Directory scanner\<close>

text \<open>
  A directory is the list of its entries in the order \<open>iterdir\<close> gives them, each
  with its name, whether it is a regular file, and its bytes. A path that is not a
  directory is \<open>None\<close>.
\<close>

record dir_entry =
  name :: string
  is_file :: bool
  content :: bytes

text \<open>
  \<open>_DATA_FILE_RE.match(name)\<close>, lines 295 and 311: \<open>re.match\<close> anchors the pattern
  \<open>[0-9]{6}\.(ldb|log|sst)\<close> at the start of the name only.
\<close>

definition is_digit :: "char \<Rightarrow> bool" where
  "is_digit c = (48 \<le> (of_char c :: nat) \<and> (of_char c :: nat) \<le> 57)"

definition data_file_re_match :: "string \<Rightarrow> bool" where
  "data_file_re_match s =
     (length (take 6 s) = 6 \<and> list_all is_digit (take 6 s)
      \<and> take 1 (drop 6 s) = ''.''
      \<and> (take 3 (drop 7 s) = ''ldb'' \<or> take 3 (drop 7 s) = ''log''
           \<or> take 3 (drop 7 s) = ''sst''))"

text \<open>
  \<open>pathlib\<close>'s \<open>suffix\<close> and \<open>stem\<close>: the name is split at its last dot, unless that
  dot is the first or the last character.
\<close>

fun rfind :: "char \<Rightarrow> string \<Rightarrow> nat option" where
  "rfind c [] = None"
| "rfind c (x # xs) =
     (case rfind c xs of
        Some i \<Rightarrow> Some (Suc i)
      | None \<Rightarrow> if x = c then Some 0 else None)"

definition suffix :: "string \<Rightarrow> string" where
  "suffix s =
     (case rfind (CHR ''.'') s of
        Some i \<Rightarrow> if 0 < i \<and> i < length s - 1 then drop i s else []
      | None \<Rightarrow> [])"

definition stem :: "string \<Rightarrow> string" where
  "stem s =
     (case rfind (CHR ''.'') s of
        Some i \<Rightarrow> if 0 < i \<and> i < length s - 1 then take i s else s
      | None \<Rightarrow> s)"

text \<open>
  \<open>str.lower\<close> on ASCII letters.
\<close>

definition lower :: "string \<Rightarrow> string" where
  "lower s = map (\<lambda>c. if 65 \<le> (of_char c :: nat) \<and> (of_char c :: nat) \<le> 90
                       then char_of ((of_char c :: nat) + 32) else c) s"

text \<open>
  \<open>int(s, 16)\<close> on a string of hexadecimal digits; anything else is
  \<open>ValueError\<close>. (Python also accepts a sign, a \<open>0x\<close> prefix, blanks around the
  number and single underscores between digits, never a dot: a stem that has passed
  the pattern is six digits or holds a dot.)
\<close>

definition hex_digit :: "char \<Rightarrow> nat option" where
  "hex_digit c =
     (let n = (of_char c :: nat) in
      if 48 \<le> n \<and> n \<le> 57 then Some (n - 48)
      else if 97 \<le> n \<and> n \<le> 102 then Some (n - 87)
      else if 65 \<le> n \<and> n \<le> 70 then Some (n - 55)
      else None)"

fun hex_value :: "nat \<Rightarrow> string \<Rightarrow> nat option" where
  "hex_value acc [] = Some acc"
| "hex_value acc (c # cs) =
     (case hex_digit c of None \<Rightarrow> None | Some d \<Rightarrow> hex_value (16 * acc + d) cs)"

definition int16 :: "string \<Rightarrow> error + nat" where
  "int16 s = (if s = [] then Inl InvalidLiteral
              else case hex_value 0 s of None \<Rightarrow> Inl InvalidLiteral | Some n \<Rightarrow> Inr n)"

text \<open>
  The loop that collects the data files, lines 309 to 313.
\<close>

fun collect_files :: "dir_entry list \<Rightarrow> error + (nat \<times> dir_entry \<times> string) list" where
  "collect_files [] = Inr []"
| "collect_files (f # fs) =
     (if is_file f \<and> data_file_re_match (name f) then
        (case int16 (stem (name f)) of
           Inl e \<Rightarrow> Inl e
         | Inr file_no \<Rightarrow>
             (case collect_files fs of
                Inl e \<Rightarrow> Inl e
              | Inr files \<Rightarrow> Inr ((file_no, f, lower (suffix (name f))) # files)))
      else collect_files fs)"

text \<open>
  The loop over the sorted files, lines 317 to 321.
\<close>

fun dispatch_files :: "(nat \<times> dir_entry \<times> string) list \<Rightarrow> Record list \<times> error option" where
  "dispatch_files [] = ([], None)"
| "dispatch_files ((file_no, path, ext) # files) =
     (if ext = ''.log'' then
        (let (rs, err) = dispatch_files files in (iter_log_file (content path) @ rs, err))
      else if ext = ''.ldb'' \<or> ext = ''.sst'' then
        (case iter_table_file (content path) of
           (rs, Some e) \<Rightarrow> (rs, Some e)
         | (rs, None) \<Rightarrow> (let (rs', err) = dispatch_files files in (rs @ rs', err)))
      else dispatch_files files)"

text \<open>
  \<open>iter_leveldb_records\<close>, lines 298 to 321. \<open>list.sort\<close> is stable, as \<open>sort_key\<close>
  is. The exceptions of \<open>open\<close> are not modelled.
\<close>

definition iter_leveldb_records :: "dir_entry list option \<Rightarrow> Record list \<times> error option" where
  "iter_leveldb_records db_dir =
     (case db_dir of
        None \<Rightarrow> ([], Some NotADirectory)
      | Some entries \<Rightarrow>
          (case collect_files entries of
             Inl e \<Rightarrow> ([], Some e)
           | Inr files \<Rightarrow> dispatch_files (sort_key fst files)))"

section \<open>An example table file\<close>

text \<open>
  A table file for any key and value of at most 50 bytes each: one uncompressed data
  block with the single entry \<open>(k, v)\<close> and one restart point, its 5-byte trailer, an index
  block whose only value is the handle of the data block, its trailer, and the 48-byte
  footer (metaindex handle, index handle, padding, magic).
\<close>

definition example_table :: "bytes \<Rightarrow> bytes \<Rightarrow> bytes" where
  "example_table k v =
     (let data_block = [0, of_nat (length k), of_nat (length v)] @ k @ v @ [0,0,0,0, 1,0,0,0];
          index_block = [0, 1, 2, 0x6B, 0, of_nat (length data_block)] @ [0,0,0,0, 1,0,0,0]
      in data_block @ [0,0,0,0,0] @ index_block @ [0,0,0,0,0]
         @ [0, 0, of_nat (length data_block + 5), 14] @ replicate 36 0
         @ [0x57, 0xFB, 0x80, 0x8B, 0x24, 0x75, 0x47, 0xDB])"

section \<open>The element structure of a Snappy stream\<close>

text \<open>
  The failure conditions of the decompressor, as the specification words them (section
  4.2): a second definition, which walks the elements of the stream by their sizes alone
  and builds no output. A literal has 0 to 4 length bytes after its tag (size markers 60
  to 63) and then its data; a copy has 1, 2 or 4 header bytes after its tag. The result
  says where the first malformed element is cut off, or that its offset is zero.
\<close>

datatype scan_result =
  WellFormed | TruncLiteralHeader | TruncLiteralData | TruncCopyHeader | ZeroOff

definition literal_extra :: "nat \<Rightarrow> nat" where
  "literal_extra m = (if m < 60 then 0 else if m = 60 then 1 else if m = 61 then 2
                      else if m = 62 then 3 else 4)"

definition copy_extra :: "nat \<Rightarrow> nat" where
  "copy_extra tag = (if tag = 1 then 1 else if tag = 2 then 2 else 4)"

function snappy_scan :: "bytes \<Rightarrow> scan_result" where
  "snappy_scan [] = WellFormed"
| "snappy_scan (t # data) =
     (let tag = unat t AND 0x03; m = drop_bit 2 (unat t AND 0xFC) in
      if tag = 0 then
        (let k = literal_extra m in
         if length data < k then TruncLiteralHeader
         else
           (let len = (if m < 60 then m else uint_le (take k data)) + 1 in
            if length data - k < len then TruncLiteralData
            else snappy_scan (drop (k + len) data)))
      else
        (let k = copy_extra tag in
         if length data < k then TruncCopyHeader
         else if (if tag = 1 then push_bit 3 (unat t AND 0xE0) OR uint_le (take k data)
                  else uint_le (take k data)) = 0 then ZeroOff
         else snappy_scan (drop k data)))"
  by pat_completeness auto
termination
  by (relation "measure length") auto

section \<open>Properties of the varint codec\<close>

lemma varint_loop_None:
  "fst (varint_loop limit i r s) = None \<longleftrightarrow>
     length s < limit - i \<and> (\<forall>b \<in> set s. b AND 0x80 \<noteq> 0)"
proof (induction limit i r s rule: varint_loop.induct)
  case (1 limit i result stream)
  show ?case
  proof (cases "i < limit")
    case False
    then show ?thesis by simp
  next
    case True
    show ?thesis
    proof (cases stream)
      case Nil
      with True show ?thesis by simp
    next
      case (Cons b s')
      show ?thesis
      proof (cases "b AND 0x80 = 0")
        case z: True
        with True Cons show ?thesis by (simp add: Let_def)
      next
        case nz: False
        have "fst (varint_loop limit i result stream) =
              fst (varint_loop limit (i + 1) (result OR push_bit (i * 7) (unat b AND 0x7F)) s')"
          using True Cons nz by (simp add: Let_def)
        also have "\<dots> = None \<longleftrightarrow>
              length s' < limit - (i + 1) \<and> (\<forall>b \<in> set s'. b AND 0x80 \<noteq> 0)"
          using "1.IH"[OF True Cons refl nz] .
        finally show ?thesis using Cons nz True by auto
      qed
    qed
  qed
qed

text \<open>
  C2, as stated: \<open>END_OF_INPUT\<close> is returned only when no byte at all is available, and
  a stream that ends after some continuation bytes gives the partial value. The code
  returns \<open>None\<close> at every failed read: on the one-byte stream \<open>80\<close> (a continuation
  byte, then the end) the result is \<open>None\<close>, not the partial value 0.
\<close>

theorem read_le_varint_partial_counterexample:
  "\<not> (fst (read_le_varint True [0x80]) = None \<longrightarrow> [0x80 :: byte] = [])
   \<and> fst (read_le_varint True [0x80]) \<noteq> Some 0
   \<and> fst (read_le_varint False [0x80]) = None"
  by (simp add: read_le_varint_def)

text \<open>
  C2, amended: with either limit (5 or 10 bytes), the result is \<open>END_OF_INPUT\<close> exactly
  when the stream ends before a byte with a clear high bit was read and before the limit
  was reached, whether no byte or some bytes were consumed. So a value is returned only
  after a terminating byte, or after \<open>limit\<close> bytes.
\<close>

theorem read_le_varint_eof_iff:
  "fst (read_le_varint is_google_32bit stream) = None \<longleftrightarrow>
     length stream < (if is_google_32bit then 5 else 10)
     \<and> (\<forall>b \<in> set stream. b AND 0x80 \<noteq> 0)"
  unfolding read_le_varint_def using varint_loop_None [of _ 0 0 stream] by simp

theorem read_le_varint_eof_iff_witness:
  "length [0x80, 0xFF :: byte] < (if True then 5 else 10)
   \<and> (0x80 :: byte) AND 0x80 \<noteq> 0 \<and> (0xFF :: byte) AND 0x80 \<noteq> 0
   \<and> fst (read_le_varint True [0x80, 0xFF]) = None"
  using read_le_varint_eof_iff [of True "[0x80, 0xFF]"] by simp

section \<open>Properties of the Snappy decompressor\<close>










lemma uint_le_append_zero: "uint_le (xs @ [0]) = uint_le xs"
  by (induction xs) simp_all

lemma read1_case:
  "(case fst (read 1 data) of [] \<Rightarrow> A | b # x \<Rightarrow> B b) =
     (if length data < 1 then A else B (hd data))"
  by (cases data) (simp_all add: read_def)

lemma uint_le_take1: "data \<noteq> [] \<Longrightarrow> uint_le (take 1 data) = unat (hd data)"
  by (cases data) simp_all

lemma literal_length_scan:
  "literal_length m data =
     (if length data < literal_extra m
      then Inl (if m = 60 then IndexError else StructError)
      else Inr (1 + (if m < 60 then m else uint_le (take (literal_extra m) data)),
                drop (literal_extra m) data))"
proof -
  have "data \<noteq> [] \<Longrightarrow> uint_le (take (Suc 0) data) = unat (hd data)"
    using uint_le_take1 [of data] by simp
  then show ?thesis
    unfolding literal_length_def read1_case
    by (auto simp: literal_extra_def read_def unpack_le_def uint_le_append_zero min_def)
qed

lemma copy_header_scan:
  "copy_header t data =
     (let tag = unat t AND 0x03; k = copy_extra tag in
      if length data < k
      then Inl (if tag = 1 then IndexError else StructError)
      else Inr (if tag = 1 then drop_bit 2 (unat t AND 0x1C) + 4
                else 1 + drop_bit 2 (unat t AND 0xFC),
                if tag = 1 then push_bit 3 (unat t AND 0xE0) OR uint_le (take k data)
                else uint_le (take k data),
                drop k data))"
proof -
  have "data \<noteq> [] \<Longrightarrow> uint_le (take (Suc 0) data) = unat (hd data)"
    using uint_le_take1 [of data] by simp
  then show ?thesis
    unfolding copy_header_def read1_case
    by (auto simp: copy_extra_def read_def unpack_le_def Let_def min_def
             simp del: drop_bit_and)
qed

lemma snappy_loop_scan:
  "(case snappy_scan data of
      WellFormed \<Rightarrow> (\<exists>r. snappy_loop out data = Inr r)
    | TruncLiteralHeader \<Rightarrow> snappy_loop out data = Inl IndexError \<or> snappy_loop out data = Inl StructError
    | TruncLiteralData \<Rightarrow> snappy_loop out data = Inl TruncatedLiteral
    | TruncCopyHeader \<Rightarrow> snappy_loop out data = Inl IndexError \<or> snappy_loop out data = Inl StructError
    | ZeroOff \<Rightarrow> snappy_loop out data = Inl ZeroOffset)"
proof (induction data arbitrary: out rule: snappy_scan.induct)
  case 1
  show ?case by simp
next
  case (2 t data)
  define tag where "tag = unat t AND 0x03"
  define m where "m = drop_bit 2 (unat t AND 0xFC)"
  define k where "k = literal_extra m"
  define len where "len = (if m < 60 then m else uint_le (take k data)) + 1"
  define kc where "kc = copy_extra tag"
  define off where "off = (if tag = 1 then push_bit 3 (unat t AND 0xE0) OR uint_le (take kc data)
                           else uint_le (take kc data))"
  have scan: "snappy_scan (t # data) =
     (if tag = 0 then
        (if length data < k then TruncLiteralHeader
         else if length data - k < len then TruncLiteralData
         else snappy_scan (drop (k + len) data))
      else
        (if length data < kc then TruncCopyHeader
         else if off = 0 then ZeroOff
         else snappy_scan (drop kc data)))"
    unfolding tag_def m_def k_def len_def kc_def off_def
    by (simp only: snappy_scan.simps Let_def)
  have loop: "snappy_loop out (t # data) =
     (if tag = 0 then
        (case literal_length m data of
           Inl e \<Rightarrow> Inl e
         | Inr (len, data') \<Rightarrow>
             (let chunk = fst (read len data') in
              if length chunk < len then Inl TruncatedLiteral
              else snappy_loop (out @ chunk) (snd (read len data'))))
      else
        (case copy_header t data of
           Inl e \<Rightarrow> Inl e
         | Inr (len, offset, data') \<Rightarrow>
             if offset = 0 then Inl ZeroOffset
             else snappy_loop (out @ copy_bytes out offset len) data'))"
    unfolding tag_def m_def by (simp only: snappy_loop.simps)
  have lit_hdr: "literal_length m data =
     (if length data < k then Inl (if m = 60 then IndexError else StructError)
      else Inr (len, drop k data))"
    unfolding k_def len_def by (simp add: literal_length_scan)
  obtain cl where cp_hdr: "copy_header t data =
     (if length data < kc then Inl (if tag = 1 then IndexError else StructError)
      else Inr (cl, off, drop kc data))"
    unfolding kc_def off_def tag_def using copy_header_scan [of t data]
    by (simp only: Let_def)
  show ?case
  proof (cases "tag = 0")
    case lit: True
    show ?thesis
    proof (cases "length data < k")
      case True
      then show ?thesis unfolding scan loop lit_hdr using lit by simp
    next
      case hdr: False
      show ?thesis
      proof (cases "length data - k < len")
        case True
        then show ?thesis unfolding scan loop lit_hdr using lit hdr
          by (simp add: read_def)
      next
        case False
        have A: "snappy_loop out (t # data) =
                snappy_loop (out @ take len (drop k data)) (drop (k + len) data)"
          unfolding loop lit_hdr using lit hdr False by (simp add: read_def add.commute)
        have B: "snappy_scan (t # data) = snappy_scan (drop (k + len) data)"
          unfolding scan using lit hdr False by simp
        show ?thesis
          unfolding A B
          by (rule "2.IH"(1)[OF tag_def m_def lit k_def hdr len_def False])
      qed
    qed
  next
    case cp: False
    show ?thesis
    proof (cases "length data < kc")
      case True
      then show ?thesis unfolding scan loop cp_hdr using cp by simp
    next
      case hdr: False
      show ?thesis
      proof (cases "off = 0")
        case True
        then show ?thesis unfolding scan loop cp_hdr using cp hdr by simp
      next
        case False
        have A: "snappy_loop out (t # data) =
                snappy_loop (out @ copy_bytes out off cl) (drop kc data)"
          unfolding loop cp_hdr using cp hdr False by simp
        have B: "snappy_scan (t # data) = snappy_scan (drop kc data)"
          unfolding scan using cp hdr False by simp
        show ?thesis
          unfolding A B
          by (rule "2.IH"(2)[OF tag_def m_def cp kc_def hdr False [unfolded off_def]])
      qed
    qed
  qed
qed

text \<open>
  C4, as stated: the decompressor fails only on a literal cut off inside its data bytes,
  a copy cut off inside its header, a zero offset or a length mismatch. A literal cut
  off inside its length bytes fails too, with the runtime's exception: on \<open>00 F0\<close>
  (size marker 60, no length byte) \<open>data.read(1)[0]\<close> raises \<open>IndexError\<close>, and on
  \<open>00 F4 01\<close> (size marker 61, one of two length bytes) \<open>struct.unpack\<close> raises
  \<open>struct.error\<close>.
\<close>

theorem snappy_truncated_literal_length_counterexample:
  "snappy_decompress [0x00, 0xF0] = Inl IndexError
   \<and> snappy_scan [0xF0] = TruncLiteralHeader
   \<and> snappy_decompress [0x00, 0xF4, 0x01] = Inl StructError
   \<and> snappy_scan [0xF4, 0x01] = TruncLiteralHeader"
  by (simp add: snappy_decompress_def read_le_varint_def literal_length_def read_def
      unpack_le_def literal_extra_def)

text \<open>
  C4, amended: the decompressor fails exactly on these inputs: a literal cut off inside
  its data (\<open>ValueError\<close>, truncated literal), a literal cut off inside its length bytes
  or a copy cut off inside its header bytes (\<open>IndexError\<close> or \<open>struct.error\<close>), a copy
  offset of zero (\<open>ValueError\<close>), and, when every element is well formed, a length
  prefix that is missing or differs from the length of the output (\<open>ValueError\<close>,
  length mismatch). Every other input yields the output buffer.
\<close>

theorem snappy_decompress_failures:
  "(let n = fst (read_le_varint False data);
        body = snd (read_le_varint False data);
        r = snappy_decompress data
    in (r = Inl TruncatedLiteral \<longleftrightarrow> snappy_scan body = TruncLiteralData)
     \<and> (r = Inl ZeroOffset \<longleftrightarrow> snappy_scan body = ZeroOff)
     \<and> (r = Inl IndexError \<or> r = Inl StructError \<longleftrightarrow>
          snappy_scan body = TruncLiteralHeader \<or> snappy_scan body = TruncCopyHeader)
     \<and> (r = Inl LengthMismatch \<longleftrightarrow>
          snappy_scan body = WellFormed
          \<and> (\<exists>out. snappy_loop [] body = Inr out \<and> n \<noteq> Some (length out)))
     \<and> ((\<exists>out. r = Inr out) \<longleftrightarrow>
          snappy_scan body = WellFormed
          \<and> (\<exists>out. snappy_loop [] body = Inr out \<and> n = Some (length out)))
     \<and> (r = Inl TruncatedLiteral \<or> r = Inl ZeroOffset \<or> r = Inl IndexError
          \<or> r = Inl StructError \<or> r = Inl LengthMismatch \<or> (\<exists>out. r = Inr out)))"
proof -
  define body where "body = snd (read_le_varint False data)"
  define n where "n = fst (read_le_varint False data)"
  have r: "snappy_decompress data =
      (case snappy_loop [] body of
         Inl e \<Rightarrow> Inl e
       | Inr result \<Rightarrow> if n \<noteq> Some (length result) then Inl LengthMismatch else Inr result)"
    unfolding snappy_decompress_def body_def n_def by (simp add: split_beta)
  have scan: "(case snappy_scan body of
      WellFormed \<Rightarrow> (\<exists>r. snappy_loop [] body = Inr r)
    | TruncLiteralHeader \<Rightarrow>
        snappy_loop [] body = Inl IndexError \<or> snappy_loop [] body = Inl StructError
    | TruncLiteralData \<Rightarrow> snappy_loop [] body = Inl TruncatedLiteral
    | TruncCopyHeader \<Rightarrow>
        snappy_loop [] body = Inl IndexError \<or> snappy_loop [] body = Inl StructError
    | ZeroOff \<Rightarrow> snappy_loop [] body = Inl ZeroOffset)"
    by (rule snappy_loop_scan)
  show ?thesis
    unfolding Let_def body_def [symmetric] n_def [symmetric] r
    by (cases "snappy_scan body") (insert scan, auto split: sum.splits)
qed

theorem snappy_decompress_failures_witness:
  "snappy_decompress [0x01, 0x00] = Inl TruncatedLiteral"
  using snappy_decompress_failures [of "[0x01, 0x00]"]
  by (simp add: read_le_varint_def literal_extra_def Let_def)

section \<open>Properties of the table reader\<close>

lemma replicate_numeral: "replicate (numeral n) x = x # replicate (pred_numeral n) x"
  by (simp add: numeral_eq_Suc)

lemmas table_eval =
  entries_loop.simps example_table_def replicate_numeral
  iter_table_file_def read_block_handle_def read_le_varint_def read_def read_opt_def
  unpack_le_def read_block_def iter_block_entries_def py_slice_def py_index_def signed32_def
  block_entry_def table_record_def Let_def


lemma key_tail: "py_slice k (- 8) (int (length k)) = drop (length k - 8) k"
proof -
  have "nat (int (length k) - 8) = length k - 8" by arith
  then show ?thesis by (auto simp: py_slice_def py_index_def Let_def)
qed

lemma table_record_short: "length k < 8 \<Longrightarrow> table_record k v = Inl StructError"
  by (simp add: table_record_def key_tail unpack_le_def)

lemma table_record_long:
  "8 \<le> length k \<Longrightarrow> table_record k v =
     Inr \<lparr>key = k, val = v, seq = drop_bit 8 (uint_le (drop (length k - 8) k)),
          state = (if length k = 8 then Unknown
                   else if k ! (length k - 8) = 0 then Deleted else Live),
          from_ldb = True\<rparr>"
  by (auto simp: table_record_def key_tail unpack_le_def Let_def)

lemma table_records_set:
  "r \<in> set (fst (table_records entries)) \<Longrightarrow>
     \<exists>k v. (k, v) \<in> set entries \<and> table_record k v = Inr r"
proof (induction entries)
  case Nil
  then show ?case by simp
next
  case (Cons e entries)
  obtain k v where e: "e = (k, v)" by (cases e)
  show ?case
  proof (cases "table_record k v")
    case (Inl x)
    then show ?thesis using Cons.prems e by simp
  next
    case (Inr r')
    then have "r = r' \<or> r \<in> set (fst (table_records entries))"
      using Cons.prems e by (auto simp: split_beta)
    then show ?thesis using Inr e Cons.IH by auto
  qed
qed

lemma table_blocks_set:
  "r \<in> set (fst (table_blocks f index_entries)) \<Longrightarrow> \<exists>k v. table_record k v = Inr r"
proof (induction index_entries)
  case Nil
  then show ?case by simp
next
  case (Cons ie index_entries)
  obtain ik hb where ie: "ie = (ik, hb)" by (cases ie)
  obtain off len hs where h: "read_block_handle hb = ((off, len), hs)"
    by (metis prod.exhaust)
  show ?case
  proof (cases "read_block f off len")
    case (Inl x)
    then show ?thesis using Cons.prems ie h by simp
  next
    case (Inr bd)
    obtain block_data c where bd: "bd = (block_data, c)" by (cases bd)
    show ?thesis
    proof (cases "iter_block_entries block_data")
      case (Inl x)
      then show ?thesis using Cons.prems ie h Inr bd by simp
    next
      case ents: (Inr entries)
      obtain rs err where tr: "table_records entries = (rs, err)" by (cases "table_records entries")
      have "r \<in> set rs \<or> r \<in> set (fst (table_blocks f index_entries))"
        using Cons.prems ie h Inr bd ents tr
        by (cases err) (auto simp: split_beta)
      then show ?thesis
      proof
        assume "r \<in> set rs"
        then have "r \<in> set (fst (table_records entries))" using tr by simp
        then show ?thesis using table_records_set by blast
      next
        assume "r \<in> set (fst (table_blocks f index_entries))"
        then show ?thesis by (rule Cons.IH)
      qed
    qed
  qed
qed

lemma iter_table_file_set:
  assumes "r \<in> set (fst (iter_table_file f))"
  shows "\<exists>k v. table_record k v = Inr r"
proof -
  have "\<exists>index_entries. r \<in> set (fst (table_blocks f index_entries))"
    using assms
    by (auto simp: iter_table_file_def Let_def split_beta
             split: if_splits sum.splits)
  then show ?thesis using table_blocks_set by blast
qed

lemma iter_table_file_from_ldb:
  assumes "r \<in> set (fst (iter_table_file f))"
  shows "from_ldb r"
proof -
  obtain k v where kv: "table_record k v = Inr r"
    using iter_table_file_set [OF assms] by blast
  then show ?thesis
    by (cases "8 \<le> length k") (auto simp: table_record_long table_record_short)
qed




text \<open>
  C9: the claim promises an \<open>Unknown\<close> record for every key of at most 8 bytes. For a
  key of fewer than 8 bytes the code computes \<open>seq\<close> first, and
  \<open>struct.unpack("<Q", key[-8:])\<close> raises \<open>struct.error\<close> on the short slice: no record is
  emitted and the scan of the file ends, although line 207 and \<open>user_key\<close> provide for
  such keys. Here on a table file whose only entry has the key \<open>abc\<close>.
\<close>

theorem table_short_key_raises:
  "iter_table_file (example_table [0x61, 0x62, 0x63] [0x76]) = ([], Some StructError)
   \<and> table_record [0x61, 0x62, 0x63] [0x76] = Inl StructError"
  by (simp add: table_eval)

section \<open>Properties of the log reader\<close>

lemmas log_eval =
  log_records.simps log_chunk_loop.simps log_file_loop.simps iter_log_file_def
  iter_log_batches_def log_fragment_def Let_def log_batch_records_def log_record_def
  read_def read_le_varint_def

lemma log_records_nth:
  "j < length (log_records sq count i buf) \<Longrightarrow>
     seq (log_records sq count i buf ! j) = sq + i + j
     \<and> \<not> from_ldb (log_records sq count i buf ! j)
     \<and> i + j < count"
proof (induction sq count i buf arbitrary: j rule: log_records.induct)
  case (1 sq count i buf)
  show ?case
  proof (cases "i < count")
    case False
    then show ?thesis using "1.prems" by (simp add: log_records.simps [of sq count i buf])
  next
    case True
    show ?thesis
    proof (cases "log_record buf")
      case None
      then show ?thesis using "1.prems" True
        by (simp add: log_records.simps [of sq count i buf])
    next
      case (Some x)
      obtain st k v buf' where x: "x = ((st, k, v), buf')" by (metis prod.exhaust)
      have unf: "log_records sq count i buf =
          \<lparr>key = k, val = v, seq = sq + i, state = st, from_ldb = False\<rparr>
            # log_records sq count (i + 1) buf'"
        using True Some x by (simp add: log_records.simps [of sq count i buf])
      show ?thesis
      proof (cases j)
        case 0
        then show ?thesis using unf True by simp
      next
        case (Suc j')
        then have "j' < length (log_records sq count (i + 1) buf')"
          using "1.prems" unf by simp
        then show ?thesis
          using "1.IH"[OF True Some x [symmetric] refl refl, of j'] unf Suc by simp
      qed
    qed
  qed
qed

text \<open>
  C5: in a batch whose 12-byte header decodes to the base sequence \<open>b\<close> and the count
  \<open>n\<close>, the \<open>i\<close>-th record emitted has \<open>seq = b + i\<close> and origin log; there are at most
  \<open>n\<close> records.
\<close>

theorem log_batch_seq:
  assumes "12 \<le> length batch" and "i < length (log_batch_records batch)"
  shows "seq (log_batch_records batch ! i) = uint_le (take 8 batch) + i
       \<and> \<not> from_ldb (log_batch_records batch ! i)
       \<and> i < uint_le (take 4 (drop 8 batch))"
proof -
  have eq: "log_batch_records batch =
      log_records (uint_le (take 8 batch)) (uint_le (take 4 (drop 8 batch))) 0 (drop 12 batch)"
    using assms(1) by (simp add: log_batch_records_def read_def min_def drop_take)
  show ?thesis
    using log_records_nth [of i "uint_le (take 8 batch)" "uint_le (take 4 (drop 8 batch))" 0
        "drop 12 batch"] assms(2)
    unfolding eq by simp
qed

theorem log_batch_seq_witness:
  "12 \<le> length [7,0,0,0,0,0,0,0, 2,0,0,0, 1, 1, 0x6B, 1, 0x76, 0, 1, 0x6B :: byte]
   \<and> 1 < length (log_batch_records [7,0,0,0,0,0,0,0, 2,0,0,0, 1, 1, 0x6B, 1, 0x76, 0, 1, 0x6B])
   \<and> seq (log_batch_records [7,0,0,0,0,0,0,0, 2,0,0,0, 1, 1, 0x6B, 1, 0x76, 0, 1, 0x6B] ! 1) = 8"
  using log_batch_seq [of "[7,0,0,0,0,0,0,0, 2,0,0,0, 1, 1, 0x6B, 1, 0x76, 0, 1, 0x6B]" 1]
  by (simp add: log_eval)







lemma log_chunk_loop_end:
  "length chunk \<le> pos \<Longrightarrow> log_chunk_loop in_record block chunk pos = ([], in_record, block)"
  by (simp add: log_chunk_loop.simps [of in_record block chunk pos])

text \<open>
  C10: when the declared payload length of a fragment exceeds what is left of the
  physical block, the fragment is processed with the bytes left in the block as its
  payload and is the last of its block; a full block is processed on its own bytes, and
  the blocks after it are then read as usual. Nothing is raised.
\<close>

theorem log_fragment_truncated_payload:
  assumes "pos < 32762" and "pos + 7 \<le> length chunk" and "length chunk \<le> 32768"
      and "length chunk - (pos + 7) < uint_le (take 2 (drop (pos + 4) chunk))"
  shows "log_chunk_loop in_record block chunk pos =
           log_fragment in_record block (unat (chunk ! (pos + 6))) (drop (pos + 7) chunk)
       \<and> (length chunk = 32768 \<longrightarrow>
            log_file_loop in_record block (chunk @ next_blocks) =
              fst (log_chunk_loop in_record block chunk 0)
              @ log_file_loop (fst (snd (log_chunk_loop in_record block chunk 0)))
                  (snd (snd (log_chunk_loop in_record block chunk 0))) next_blocks)"
proof
  let ?header = "take 7 (drop pos chunk)"
  let ?payload = "drop (pos + 7) chunk"
  let ?step = "log_fragment in_record block (unat (chunk ! (pos + 6))) ?payload"
  have hl: "length ?header = 7" using assms(2) by simp
  have len: "uint_le (take 2 (drop 4 ?header)) = uint_le (take 2 (drop (pos + 4) chunk))"
    by (simp add: drop_take add.commute)
  have ty: "?header ! 6 = chunk ! (pos + 6)" using assms(2) by simp
  have pay: "take (uint_le (take 2 (drop (pos + 4) chunk))) ?payload = ?payload"
    using assms(4) by simp
  have pl: "pos + 7 + length ?payload = length chunk" using assms(2) by simp
  have "log_chunk_loop in_record block chunk pos =
        (fst ?step @ fst (log_chunk_loop (fst (snd ?step)) (snd (snd ?step)) chunk (length chunk)),
         snd (log_chunk_loop (fst (snd ?step)) (snd (snd ?step)) chunk (length chunk)))"
    using assms(1) hl
    by (subst log_chunk_loop.simps) (simp only: Let_def len ty pay pl, simp)
  then show "log_chunk_loop in_record block chunk pos = ?step"
    by (simp add: log_chunk_loop_end)
next
  show "length chunk = 32768 \<longrightarrow>
            log_file_loop in_record block (chunk @ next_blocks) =
              fst (log_chunk_loop in_record block chunk 0)
              @ log_file_loop (fst (snd (log_chunk_loop in_record block chunk 0)))
                  (snd (snd (log_chunk_loop in_record block chunk 0))) next_blocks"
  proof
    assume l: "length chunk = 32768"
    then have "chunk \<noteq> []" by auto
    then show "log_file_loop in_record block (chunk @ next_blocks) =
              fst (log_chunk_loop in_record block chunk 0)
              @ log_file_loop (fst (snd (log_chunk_loop in_record block chunk 0)))
                  (snd (snd (log_chunk_loop in_record block chunk 0))) next_blocks"
      using l by (subst log_file_loop.simps) (simp add: Let_def)
  qed
qed

theorem log_fragment_truncated_payload_witness:
  "(0::nat) < 32762 \<and> 0 + 7 \<le> length [0,0,0,0, 16,0, 1, 0x61 :: byte]
   \<and> length [0,0,0,0, 16,0, 1, 0x61 :: byte] \<le> 32768
   \<and> length [0,0,0,0, 16,0, 1, 0x61 :: byte] - (0 + 7)
        < uint_le (take 2 (drop (0 + 4) [0,0,0,0, 16,0, 1, 0x61]))
   \<and> log_chunk_loop False [] [0,0,0,0, 16,0, 1, 0x61] 0 = ([[0x61]], False, [])"
  using log_fragment_truncated_payload [of 0 "[0,0,0,0, 16,0, 1, 0x61]" False "[]" "[]"]
  by (simp add: log_fragment_def)

section \<open>Properties of the directory scanner\<close>

lemmas dir_eval =
  iter_leveldb_records_def data_file_re_match_def is_digit_def stem_def suffix_def lower_def
  int16_def hex_digit_def

lemma log_record_deleted:
  "log_record buf = Some ((st, k, v), buf') \<Longrightarrow> st = Deleted \<Longrightarrow> v = []"
  by (auto simp: log_record_def Let_def split_beta split: list.splits option.splits if_splits)

lemma log_records_deleted:
  "r \<in> set (log_records sq count i buf) \<Longrightarrow> state r = Deleted \<Longrightarrow> val r = []"
proof (induction sq count i buf rule: log_records.induct)
  case (1 sq count i buf)
  show ?case
  proof (cases "i < count")
    case False
    then show ?thesis using "1.prems" by (simp add: log_records.simps [of sq count i buf])
  next
    case True
    show ?thesis
    proof (cases "log_record buf")
      case None
      then show ?thesis using "1.prems" True
        by (simp add: log_records.simps [of sq count i buf])
    next
      case (Some x)
      obtain st k v buf' where x: "x = ((st, k, v), buf')" by (metis prod.exhaust)
      have unf: "log_records sq count i buf =
          \<lparr>key = k, val = v, seq = sq + i, state = st, from_ldb = False\<rparr>
            # log_records sq count (i + 1) buf'"
        using True Some x by (simp add: log_records.simps [of sq count i buf])
      show ?thesis
      proof (cases "r = \<lparr>key = k, val = v, seq = sq + i, state = st, from_ldb = False\<rparr>")
        case True
        then show ?thesis using log_record_deleted [of buf st k v buf'] Some x "1.prems"(2) by simp
      next
        case False
        then have "r \<in> set (log_records sq count (i + 1) buf')" using "1.prems"(1) unf by simp
        then show ?thesis
          using "1.IH"[OF True Some x [symmetric] refl refl] "1.prems"(2) by simp
      qed
    qed
  qed
qed

lemma iter_log_file_deleted:
  "r \<in> set (iter_log_file f) \<Longrightarrow> state r = Deleted \<Longrightarrow> val r = []"
  by (auto simp: iter_log_file_def log_batch_records_def Let_def split_beta
           split: if_splits dest: log_records_deleted)

lemma dispatch_files_set:
  "r \<in> set (fst (dispatch_files files)) \<Longrightarrow>
     (\<exists>f. r \<in> set (iter_log_file f)) \<or> (\<exists>f. r \<in> set (fst (iter_table_file f)))"
proof (induction files rule: dispatch_files.induct)
  case 1
  then show ?case by simp
next
  case (2 file_no path ext files)
  show ?case
  proof (cases "ext = ''.log''")
    case True
    then have "r \<in> set (iter_log_file (content path)) \<or> r \<in> set (fst (dispatch_files files))"
      using "2.prems" by (auto simp: split_beta)
    then show ?thesis using "2.IH"(1)[OF True] by blast
  next
    case nl: False
    show ?thesis
    proof (cases "ext = ''.ldb'' \<or> ext = ''.sst''")
      case True
      obtain rs err where t: "iter_table_file (content path) = (rs, err)"
        by (cases "iter_table_file (content path)")
      have "r \<in> set (fst (iter_table_file (content path)))
            \<or> (err = None \<and> r \<in> set (fst (dispatch_files files)))"
        using "2.prems" nl True t by (cases err) (auto simp: split_beta)
      then show ?thesis
        using "2.IH"(2)[OF nl True t [symmetric]] by blast
    next
      case False
      then show ?thesis using "2.prems" nl "2.IH"(3)[OF nl False] by simp
    qed
  qed
qed

text \<open>
  C8, as stated: every record with state \<open>Deleted\<close> has an empty value. The table reader
  copies the value of the block entry whatever the state: a table file whose entry has
  the type byte 0 and the value \<open>76\<close> gives a \<open>Deleted\<close> record with that value.
\<close>

theorem table_tombstone_value_counterexample:
  "iter_leveldb_records (Some
      [\<lparr>name = ''000005.ldb'', is_file = True,
        content = example_table [0x6B, 0, 5,0,0,0,0,0,0] [0x76]\<rparr>]) =
     ([\<lparr>key = [0x6B, 0, 5,0,0,0,0,0,0], val = [0x76], seq = 5, state = Deleted,
        from_ldb = True\<rparr>], None)"
  by (simp add: dir_eval table_eval)

text \<open>
  C8, amended: for every record the scanner emits from a log file, state \<open>Deleted\<close>
  implies that the value is empty. (A record from a table file carries the value bytes of
  its block entry.)
\<close>

theorem deleted_log_record_value_empty:
  assumes "r \<in> set (fst (iter_leveldb_records db_dir))"
      and "\<not> from_ldb r" and "state r = Deleted"
  shows "val r = []"
proof -
  have "\<exists>files. r \<in> set (fst (dispatch_files files))"
    using assms(1)
    by (auto simp: iter_leveldb_records_def split: option.splits sum.splits)
  then have "(\<exists>f. r \<in> set (iter_log_file f)) \<or> (\<exists>f. r \<in> set (fst (iter_table_file f)))"
    using dispatch_files_set by blast
  then show ?thesis
  proof
    assume "\<exists>f. r \<in> set (iter_log_file f)"
    then show ?thesis using iter_log_file_deleted assms(3) by blast
  next
    assume "\<exists>f. r \<in> set (fst (iter_table_file f))"
    then have "from_ldb r" using iter_table_file_from_ldb by blast
    then show ?thesis using assms(2) by simp
  qed
qed

theorem deleted_log_record_value_empty_witness:
  "\<lparr>key = [0x6B], val = [], seq = 7, state = Deleted, from_ldb = False\<rparr>
     \<in> set (fst (iter_leveldb_records (Some
          [\<lparr>name = ''000003.log'', is_file = True,
            content = [0,0,0,0, 15,0, 1] @ [7,0,0,0,0,0,0,0, 1,0,0,0, 0, 1, 0x6B]\<rparr>])))
   \<and> val \<lparr>key = [0x6B], val = [], seq = 7, state = Deleted, from_ldb = False\<rparr> = []"
  using deleted_log_record_value_empty
    [of "\<lparr>key = [0x6B], val = [], seq = 7, state = Deleted, from_ldb = False\<rparr>"
        "Some [\<lparr>name = ''000003.log'', is_file = True,
            content = [0,0,0,0, 15,0, 1] @ [7,0,0,0,0,0,0,0, 1,0,0,0, 0, 1, 0x6B]\<rparr>]"]
  by (simp add: dir_eval log_eval)

text \<open>
  C6: a directory entry named \<open>123456.log.old\<close> is to be ignored. \<open>re.match\<close> accepts
  the name, since the pattern has no anchor at its end; the stem is then
  \<open>123456.log\<close>, and \<open>int(f.stem, 16)\<close> raises \<open>ValueError\<close>: the scan fails before
  any record is emitted.
\<close>

theorem data_file_trailing_name_raises:
  "iter_leveldb_records
     (Some [\<lparr>name = ''123456.log.old'', is_file = True, content = []\<rparr>])
     = ([], Some InvalidLiteral)
   \<and> data_file_re_match ''123456.log.old''
   \<and> stem ''123456.log.old'' = ''123456.log''"
  by (simp add: dir_eval)

end
